theory Spec2Isabelle
  imports Main "HOL-Library.Word"
begin

section \<open>The audio buffer and the chunk generator (class MicrophoneStream)\<close>

text \<open>
  An audio chunk is a Python \<open>bytes\<close> value. The buffer \<open>_buff\<close> is a \<open>queue.Queue\<close>
  that holds chunks and, once \<open>__exit__\<close> has run, the sentinel \<open>None\<close>: an item of the
  buffer is a \<open>bytes option\<close>, with \<open>None\<close> the sentinel.
\<close>

type_synonym bytes = "8 word list"

type_synonym item = "bytes option"

record MicrophoneStream =
  buff :: "item list"
  closed :: bool

text \<open>\<open>__init__\<close>: a new, empty queue; the stream starts closed.\<close>

definition MicrophoneStream_init :: MicrophoneStream where
  "MicrophoneStream_init = \<lparr>buff = [], closed = True\<rparr>"

text \<open>\<open>_fill_buffer\<close>, the capture callback: \<open>self._buff.put(in_data)\<close>.\<close>

definition fill_buffer :: "bytes \<Rightarrow> MicrophoneStream \<Rightarrow> MicrophoneStream" where
  "fill_buffer in_data s = s\<lparr>buff := buff s @ [Some in_data]\<rparr>"

text \<open>
  \<open>__enter__\<close> opens the capture device and then sets \<open>closed = False\<close>. The device call
  is external: its outcome is the parameter \<open>dev_ok\<close>. When it raises, the assignment is
  not reached and the exception leaves \<open>__enter__\<close>.
\<close>

datatype error = DeviceError | ServiceError

definition enter :: "bool \<Rightarrow> MicrophoneStream \<Rightarrow> error + MicrophoneStream" where
  "enter dev_ok s = (if dev_ok then Inr (s\<lparr>closed := False\<rparr>) else Inl DeviceError)"

text \<open>\<open>__exit__\<close>: \<open>closed = True\<close>, then \<open>self._buff.put(None)\<close>.\<close>

definition exit_stream :: "MicrophoneStream \<Rightarrow> MicrophoneStream" where
  "exit_stream s = s\<lparr>closed := True, buff := buff s @ [None]\<rparr>"

text \<open>
  \<open>generator\<close> runs on the consumer's side while the capture callback and \<open>__exit__\<close>
  run elsewhere, so what it reads depends on timing. The timing is a parameter:
  \<^item> \<open>cl k\<close> is the value of \<open>self.closed\<close> read by the \<open>while\<close> test when \<open>k\<close> batches
    have been yielded;
  \<^item> the items the generator takes from the queue come as a list of bursts: a burst
    is what one pass of the outer loop finds, its first item taken by the blocking
    \<open>get()\<close>, the others by \<open>get(block=False)\<close>, and its end is the moment where
    \<open>get(block=False)\<close> raises \<open>queue.Empty\<close>. The concatenation of the bursts is the
    sequence of items in push order. The blocking \<open>get()\<close> waits over an empty burst.
  The result is the list of yielded values and how the run ends: the generator
  returns, or it waits for ever in \<open>get()\<close> on a queue that nothing is pushed to.
\<close>

datatype ending = Returned | Blocked

text \<open>
  The inner \<open>while True\<close> loop on the rest of the burst: \<open>None\<close> when the sentinel is
  met (the \<open>return\<close> of the inner loop), \<open>Some data\<close> at \<open>queue.Empty\<close> (the \<open>break\<close>).
\<close>

fun drain :: "item list \<Rightarrow> bytes list \<Rightarrow> bytes list option" where
  "drain [] data = Some data"
| "drain (None # q) data = None"
| "drain (Some chunk # q) data = drain q (data @ [chunk])"

fun generator :: "(nat \<Rightarrow> bool) \<Rightarrow> nat \<Rightarrow> item list list \<Rightarrow> bytes list \<times> ending" where
  "generator cl k [] = ([], if cl k then Returned else Blocked)"
| "generator cl k ([] # bursts) = generator cl k bursts"
| "generator cl k ((None # q) # bursts) = ([], Returned)"
| "generator cl k ((Some chunk # q) # bursts) =
     (if cl k then ([], Returned)
      else case drain q [chunk] of
             None \<Rightarrow> ([], Returned)
           | Some data \<Rightarrow>
               (case generator cl (Suc k) bursts of
                  (ys, e) \<Rightarrow> (concat data # ys, e)))"

text \<open>The stream is open for the whole run: every read of \<open>closed\<close> gives \<open>False\<close>.\<close>

definition never_closed :: "nat \<Rightarrow> bool" where
  "never_closed k = False"

section \<open>The exit command (the regular expression of listen\_and\_transcribe)\<close>

text \<open>
  A transcript is a Python \<open>str\<close>, a sequence of Unicode code points: a \<open>str\<close> is the
  list of its code points. \<open>str_of\<close> writes one from the characters of a literal.
\<close>

type_synonym str = "nat list"

definition str_of :: "string \<Rightarrow> str" where
  "str_of s = map of_char s"

text \<open>
  \<open>re.search(r"\b(exit|quit)\b", transcript, re.I)\<close> on a \<open>str\<close>. \<open>word_char\<close> is the
  class \<open>\w\<close> of a \<open>str\<close> pattern: the letters and digits of Unicode and the underscore.
  Below 256 the class is written out. Beyond, it is the table of the Unicode database
  of the Python runtime, which the repository does not hold: the table is the
  parameter \<open>uw\<close>, read only at the code points from 256 on.
\<close>

definition word_char :: "(nat \<Rightarrow> bool) \<Rightarrow> nat \<Rightarrow> bool" where
  "word_char uw n =
     (if n < 256
      then (48 \<le> n \<and> n \<le> 57) \<or> (65 \<le> n \<and> n \<le> 90) \<or> n = 95 \<or> (97 \<le> n \<and> n \<le> 122) \<or>
           n = 170 \<or> n = 178 \<or> n = 179 \<or> n = 181 \<or> n = 185 \<or> n = 186 \<or>
           (188 \<le> n \<and> n \<le> 190) \<or> (192 \<le> n \<and> n \<le> 214) \<or> (216 \<le> n \<and> n \<le> 246) \<or>
           248 \<le> n
      else uw n)"

text \<open>
  \<open>re.I\<close>: a letter of the pattern matches itself and its upper-case form, and the
  letter \<open>i\<close> matches two more code points, U+0130 (capital I with a dot) and U+0131
  (small i without a dot); no other code point matches one of the letters of \<open>exit\<close>
  and \<open>quit\<close>. \<open>fold_case c\<close> is the letter of the pattern that \<open>c\<close> matches, when it
  matches one: \<open>A\<close> to \<open>Z\<close> go to \<open>a\<close> to \<open>z\<close>, 304 and 305 go to \<open>i\<close>.
\<close>

definition fold_case :: "nat \<Rightarrow> nat" where
  "fold_case c =
     (if 65 \<le> c \<and> c \<le> 90 then c + 32 else if c = 304 \<or> c = 305 then 105 else c)"

text \<open>
  \<open>literal_at p s\<close>: the literal \<open>p\<close> matches at the start of \<open>s\<close>, ignoring case; the
  result is the rest of \<open>s\<close> after the match.
\<close>

fun literal_at :: "str \<Rightarrow> str \<Rightarrow> str option" where
  "literal_at [] s = Some s"
| "literal_at (p # ps) [] = None"
| "literal_at (p # ps) (c # s) = (if fold_case c = p then literal_at ps s else None)"

text \<open>\<open>\b\<close> after a matched word: the subject ends, or a non-word character follows.\<close>

fun boundary_after :: "(nat \<Rightarrow> bool) \<Rightarrow> str \<Rightarrow> bool" where
  "boundary_after uw [] = True"
| "boundary_after uw (c # s) = (\<not> word_char uw c)"

text \<open>\<open>(exit|quit)\b\<close> matches at the start of \<open>s\<close>.\<close>

definition command_at :: "(nat \<Rightarrow> bool) \<Rightarrow> str \<Rightarrow> bool" where
  "command_at uw s =
     ((case literal_at (str_of ''exit'') s of Some r \<Rightarrow> boundary_after uw r | None \<Rightarrow> False) \<or>
      (case literal_at (str_of ''quit'') s of Some r \<Rightarrow> boundary_after uw r | None \<Rightarrow> False))"

text \<open>
  The search tries every position from left to right. \<open>w\<close> tells whether the character
  before the position is a word character: the leading \<open>\b\<close> holds where it is not
  (the match itself starts with a letter).
\<close>

fun search :: "(nat \<Rightarrow> bool) \<Rightarrow> bool \<Rightarrow> str \<Rightarrow> bool" where
  "search uw w [] = False"
| "search uw w (c # s) = ((\<not> w \<and> command_at uw (c # s)) \<or> search uw (word_char uw c) s)"

definition exit_command :: "(nat \<Rightarrow> bool) \<Rightarrow> str \<Rightarrow> bool" where
  "exit_command uw transcript = search uw False transcript"

text \<open>
  The exit command in the words of the specification: the transcript holds the word
  \<open>exit\<close> or \<open>quit\<close>, in any mix of cases, as a whole word.
\<close>

definition whole_word_exit :: "(nat \<Rightarrow> bool) \<Rightarrow> str \<Rightarrow> bool" where
  "whole_word_exit uw transcript =
     (\<exists>pre w post. transcript = pre @ w @ post \<and>
        (map fold_case w = str_of ''exit'' \<or> map fold_case w = str_of ''quit'') \<and>
        (pre = [] \<or> \<not> word_char uw (last pre)) \<and>
        (post = [] \<or> \<not> word_char uw (hd post)))"

section \<open>The worker (listen\_and\_transcribe)\<close>

text \<open>
  A streaming response carries a list of results; of a result the worker reads the
  transcripts of its alternatives and the flag \<open>is_final\<close>. Iterating the response
  stream of the service gives a response, ends, or raises: \<open>StreamFailure\<close> is the
  point where the iteration raises.
\<close>

record result =
  alternatives :: "str list"
  is_final :: bool

datatype stream_item = Response "result list" | StreamFailure

text \<open>
  The run of the \<open>for\<close> loop is the list of its actions: a response is received, the
  stop event is tested (with the value read), a pair is put on the result queue. The
  loop ends when the stream ends, at the \<open>break\<close> of the stop event, at the \<open>break\<close> of
  the exit command, or when the iteration raises.
\<close>

datatype action = Recv | Check bool | Put str bool

datatype stop_reason = StreamEnd | Cancelled | ExitCommand | Raised error

text \<open>
  The stop event is set by another thread: \<open>ev u\<close> is the value of
  \<open>stop_event.is_set()\<close> at the moment of the action of index \<open>u\<close> of the run, and \<open>t\<close>
  is the index of the next action. \<open>continue\<close> goes on with the next response.
  \<open>uw\<close> is the table of the word characters from 256 on, for the regular expression.
\<close>

definition after :: "action list \<Rightarrow> action list \<times> stop_reason \<Rightarrow> action list \<times> stop_reason" where
  "after acts run = (acts @ fst run, snd run)"

fun receive_loop ::
  "(nat \<Rightarrow> bool) \<Rightarrow> (nat \<Rightarrow> bool) \<Rightarrow> nat \<Rightarrow> stream_item list \<Rightarrow> action list \<times> stop_reason" where
  "receive_loop uw ev t [] = ([], StreamEnd)"
| "receive_loop uw ev t (StreamFailure # responses) = ([], Raised ServiceError)"
| "receive_loop uw ev t (Response results # responses) =
     (if ev (t + 1) then ([Recv, Check True], Cancelled)
      else case results of
             [] \<Rightarrow> after [Recv, Check False] (receive_loop uw ev (t + 2) responses)
           | result # _ \<Rightarrow>
               (case alternatives result of
                  [] \<Rightarrow> after [Recv, Check False] (receive_loop uw ev (t + 2) responses)
                | transcript # _ \<Rightarrow>
                    if is_final result \<and> exit_command uw transcript
                    then ([Recv, Check False, Put transcript (is_final result)], ExitCommand)
                    else after [Recv, Check False, Put transcript (is_final result)]
                           (receive_loop uw ev (t + 3) responses)))"

text \<open>What a run puts on the result queue, in order.\<close>

fun puts :: "action list \<Rightarrow> (str \<times> bool) list" where
  "puts [] = []"
| "puts (Put transcript final # acts) = (transcript, final) # puts acts"
| "puts (_ # acts) = puts acts"



text \<open>The stop event is never set during the run.\<close>

definition never_set :: "nat \<Rightarrow> bool" where
  "never_set u = False"




text \<open>
  The whole worker. The client and the configuration are taken to be built; the
  \<open>with\<close> statement makes a new \<open>MicrophoneStream\<close> and enters it; when the device
  cannot be opened the exception leaves the worker before the stream is open, and
  \<open>__exit__\<close> is not run. Otherwise the loop runs, and \<open>__exit__\<close> runs on every way
  out of the \<open>with\<close> block, the exception of the response stream included.
  \<open>captured\<close> is what the capture callback has pushed and the request generator has
  not taken when the block is left.
\<close>

record worker_env =
  dev_ok :: bool
  responses :: "stream_item list"
  captured :: "bytes list"

record worker_run =
  trace :: "action list"
  reason :: stop_reason
  stream :: MicrophoneStream

definition listen_and_transcribe ::
  "(nat \<Rightarrow> bool) \<Rightarrow> (nat \<Rightarrow> bool) \<Rightarrow> worker_env \<Rightarrow> worker_run" where
  "listen_and_transcribe uw ev env =
     (case enter (dev_ok env) MicrophoneStream_init of
        Inl e \<Rightarrow> \<lparr>trace = [], reason = Raised e, stream = MicrophoneStream_init\<rparr>
      | Inr s \<Rightarrow>
          (case receive_loop uw ev 0 (responses env) of
             (acts, r) \<Rightarrow>
               \<lparr>trace = acts, reason = r,
                stream = exit_stream (fold fill_buffer (captured env) s)\<rparr>))"

section \<open>The session controller (main)\<close>

text \<open>
  \<open>main\<close> is run again from its first line at every interaction and at every
  \<open>st.rerun()\<close>. What lasts from one run to the next is \<open>st.session_state\<close>, where a
  key is absent until it is first assigned, and the threads started so far.
  A thread is named by its rank among the threads started; \<open>started\<close> holds the
  language code each was started with, \<open>live\<close> the threads whose worker has not
  returned, and \<open>streams\<close> the \<open>MicrophoneStream\<close> object of each worker.
\<close>

record world =
  ss_listening :: "bool option"
  ss_stop_event :: "bool option"
  ss_result_queue :: "(str \<times> bool) list option"
  ss_thread :: "nat option option"
  ss_final_transcript :: "str option"
  started :: "string list"
  live :: "nat set"
  streams :: "nat \<rightharpoonup> MicrophoneStream"

definition world_init :: world where
  "world_init =
     \<lparr>ss_listening = None, ss_stop_event = None, ss_result_queue = None, ss_thread = None,
      ss_final_transcript = None, started = [], live = {}, streams = Map.empty\<rparr>"

text \<open>
  What one run reads from the page: the two buttons, the content of the text area,
  the language code chosen, and whether a call of the polling block raises an
  \<open>Exception\<close> (the calls are those of the user interface library).
\<close>

record inputs =
  start_button :: bool
  stop_button :: bool
  text_area :: str
  language_code :: string
  poll_raises :: bool

text \<open>
  The state of one run, after the block "State management": the four keys are
  present. \<open>saved_transcript\<close> is the key \<open>final_transcript\<close> of the session state,
  \<open>final_transcript\<close> the local variable, \<open>interim_result\<close> the content of the
  placeholder. \<open>joins\<close> lists the calls of \<open>join\<close> of this run, thread and timeout in
  seconds; \<open>taken\<close> the pairs this run has taken from the result queue; \<open>rerun\<close> tells
  that the run has ended at \<open>st.rerun()\<close>.
\<close>

record state =
  listening :: bool
  stop_event :: bool
  result_queue :: "(str \<times> bool) list"
  thread :: "nat option"
  saved_transcript :: "str option"
  threads :: "string list"
  alive :: "nat set"
  joins :: "(nat \<times> nat) list"
  final_transcript :: str
  interim_result :: "str option"
  taken :: "(str \<times> bool) list"
  rerun :: bool

definition state_management :: "inputs \<Rightarrow> world \<Rightarrow> state" where
  "state_management inp w =
     \<lparr>listening = (case ss_listening w of None \<Rightarrow> False | Some b \<Rightarrow> b),
      stop_event = (case ss_stop_event w of None \<Rightarrow> False | Some e \<Rightarrow> e),
      result_queue = (case ss_result_queue w of None \<Rightarrow> [] | Some q \<Rightarrow> q),
      thread = (case ss_thread w of None \<Rightarrow> None | Some th \<Rightarrow> th),
      saved_transcript = ss_final_transcript w,
      threads = started w,
      alive = live w,
      joins = [],
      final_transcript = text_area inp,
      interim_result = None,
      taken = [],
      rerun = False\<rparr>"

text \<open>
  The start button: the branch is taken when the button is pressed and \<open>listening\<close>
  is false. \<open>Thread(...).start()\<close> starts one more thread.
\<close>

definition handle_start :: "inputs \<Rightarrow> state \<Rightarrow> state" where
  "handle_start inp s =
     (if start_button inp \<and> \<not> listening s
      then s\<lparr>stop_event := False,
             listening := True,
             thread := Some (length (threads s)),
             threads := threads s @ [language_code inp],
             alive := insert (length (threads s)) (alive s)\<rparr>
      else s)"

text \<open>
  The stop button. \<open>stop_trace\<close> is the state after each statement of the branch:
  the event is set, \<open>listening\<close> is made false, and, where a thread is held,
  \<open>join(timeout=1)\<close> is called and the thread is forgotten. \<open>join\<close> changes nothing:
  it returns when the worker has returned or after one second.
\<close>

definition stop_trace :: "state \<Rightarrow> state list" where
  "stop_trace s =
     (let s1 = s\<lparr>stop_event := True\<rparr>;
          s2 = s1\<lparr>listening := False\<rparr>
      in case thread s2 of
           None \<Rightarrow> [s1, s2]
         | Some th \<Rightarrow>
             (let s3 = s2\<lparr>joins := joins s2 @ [(th, 1)]\<rparr>;
                  s4 = s3\<lparr>thread := None\<rparr>
              in [s1, s2, s3, s4]))"

definition handle_stop :: "inputs \<Rightarrow> state \<Rightarrow> state" where
  "handle_stop inp s =
     (if stop_button inp \<and> listening s then last (stop_trace s) else s)"

text \<open>
  The polling loop \<open>while not result_queue.empty()\<close>, on the pairs present in the
  queue: a final transcript is added to the history with a line feed (code point 10)
  and saved in the session state, an interim one is shown in the placeholder between
  two asterisks (code point 42).
\<close>

fun take_results :: "(str \<times> bool) list \<Rightarrow> state \<Rightarrow> state" where
  "take_results [] s = s\<lparr>result_queue := []\<rparr>"
| "take_results ((transcript, final) # q) s =
     take_results q
       (if final
        then s\<lparr>final_transcript := final_transcript s @ transcript @ [10],
               saved_transcript := Some (final_transcript s @ transcript @ [10]),
               taken := taken s @ [(transcript, final)]\<rparr>
        else s\<lparr>interim_result := Some ([42] @ transcript @ [42]),
               taken := taken s @ [(transcript, final)]\<rparr>)"

text \<open>
  The block "Process results from the queue", run only when \<open>listening\<close> is true;
  its \<open>except Exception\<close> clause makes \<open>listening\<close> false. \<open>st.rerun()\<close> ends the run.
\<close>

definition process_results :: "inputs \<Rightarrow> state \<Rightarrow> state" where
  "process_results inp s =
     (if listening s
      then (if poll_raises inp then s\<lparr>listening := False\<rparr>
            else (take_results (result_queue s) s)\<lparr>rerun := True\<rparr>)
      else s)"

text \<open>The rest of the run, reached when the run has not ended at \<open>st.rerun()\<close>.\<close>

definition finish :: "state \<Rightarrow> state" where
  "finish s =
     (if rerun s then s
      else (let s1 = (if \<not> listening s then s\<lparr>interim_result := None\<rparr> else s)
            in case saved_transcript s1 of
                 None \<Rightarrow> s1
               | Some t \<Rightarrow> s1\<lparr>final_transcript := t\<rparr>))"

definition main :: "inputs \<Rightarrow> world \<Rightarrow> state" where
  "main inp w =
     finish (process_results inp (handle_stop inp (handle_start inp (state_management inp w))))"

text \<open>What the run leaves behind for the next one.\<close>

definition store :: "world \<Rightarrow> state \<Rightarrow> world" where
  "store w s =
     w\<lparr>ss_listening := Some (listening s),
       ss_stop_event := Some (stop_event s),
       ss_result_queue := Some (result_queue s),
       ss_thread := Some (thread s),
       ss_final_transcript := saved_transcript s,
       started := threads s,
       live := alive s\<rparr>"

text \<open>
  The session state seen as the state machine of the specification. The code keeps
  the flag \<open>listening\<close> and the thread: the session is \<open>Listening\<close> when the flag is
  true, \<open>Stopping\<close> when the flag is false and the thread is still held, \<open>Idle\<close>
  when the flag is false and no thread is held.
\<close>

datatype phase = Idle | Listening | Stopping

definition phase_of :: "state \<Rightarrow> phase" where
  "phase_of s =
     (if listening s then Listening else if thread s \<noteq> None then Stopping else Idle)"

text \<open>
  A worker between two runs of \<open>main\<close>: the thread \<open>th\<close> runs
  \<open>listen_and_transcribe\<close> to its end, on the event and the queue of the session
  state, which it was given when it was started. It reads the event as it is now.
  \<open>uw\<close> is the table of the word characters, the same for every worker.
\<close>

definition run_worker :: "(nat \<Rightarrow> bool) \<Rightarrow> nat \<Rightarrow> worker_env \<Rightarrow> world \<Rightarrow> world" where
  "run_worker uw th env w =
     (if th \<in> live w
      then (let r = listen_and_transcribe uw (\<lambda>u. ss_stop_event w = Some True) env
            in w\<lparr>ss_result_queue := map_option (\<lambda>q. q @ puts (trace r)) (ss_result_queue w),
                 live := live w - {th},
                 streams := (streams w)(th \<mapsto> stream r)\<rparr>)
      else w)"

datatype event = Script inputs | Worker nat worker_env

fun step :: "(nat \<Rightarrow> bool) \<Rightarrow> world \<Rightarrow> event \<Rightarrow> world" where
  "step uw w (Script inp) = store w (main inp w)"
| "step uw w (Worker th env) = run_worker uw th env w"

definition run :: "(nat \<Rightarrow> bool) \<Rightarrow> event list \<Rightarrow> world \<Rightarrow> world" where
  "run uw es w = foldl (step uw) w es"

text \<open>The session state of a world says \<open>Listening\<close>.\<close>

definition is_listening :: "world \<Rightarrow> bool" where
  "is_listening w = (ss_listening w = Some True)"

text \<open>
  The invariant of the controller: a session that is \<open>Listening\<close> holds one thread,
  the last one started.
\<close>

definition one_worker :: "world \<Rightarrow> bool" where
  "one_worker w =
     (is_listening w \<longrightarrow>
        started w \<noteq> [] \<and> ss_thread w = Some (Some (length (started w) - 1)))"

text \<open>The same invariant on the state of a run.\<close>

definition held_is_last :: "state \<Rightarrow> bool" where
  "held_is_last s =
     (listening s \<longrightarrow> threads s \<noteq> [] \<and> thread s = Some (length (threads s) - 1))"

section \<open>Scenarios\<close>

text \<open>
  The table of the word characters at the code points that the scenarios use beyond
  255: U+0130 and U+0131 (the two letters that match \<open>i\<close>), U+8BF7 (a Chinese letter),
  U+3057 and U+3066 (two Japanese letters) are letters. The scenarios read the table
  at no other code point.
\<close>

definition sample_words :: "nat \<Rightarrow> bool" where
  "sample_words n = (n = 304 \<or> n = 305 \<or> n = 35831 \<or> n = 12375 \<or> n = 12390)"

text \<open>Responses with one result of one alternative, interim and final.\<close>

definition interim_response :: "str \<Rightarrow> stream_item" where
  "interim_response transcript = Response [\<lparr>alternatives = [transcript], is_final = False\<rparr>]"

definition final_response :: "str \<Rightarrow> stream_item" where
  "final_response transcript = Response [\<lparr>alternatives = [transcript], is_final = True\<rparr>]"

text \<open>The scripted stream of the specification.\<close>

definition scripted :: "stream_item list" where
  "scripted =
     [interim_response (str_of ''hel''), interim_response (str_of ''hello''),
      final_response (str_of ''hello world'')]"

text \<open>Runs of the page: a button is pressed, or none; none, and the polling block raises.\<close>

definition press_start :: inputs where
  "press_start = \<lparr>start_button = True, stop_button = False, text_area = [],
                   language_code = ''en-US'', poll_raises = False\<rparr>"

definition press_stop :: inputs where
  "press_stop = \<lparr>start_button = False, stop_button = True, text_area = [],
                  language_code = ''en-US'', poll_raises = False\<rparr>"

definition no_press :: inputs where
  "no_press = \<lparr>start_button = False, stop_button = False, text_area = [],
                language_code = ''en-US'', poll_raises = False\<rparr>"

definition poll_fails :: inputs where
  "poll_fails = \<lparr>start_button = False, stop_button = False, text_area = [],
                  language_code = ''en-US'', poll_raises = True\<rparr>"

text \<open>
  Worker environments: the device cannot be opened; the response stream raises after
  one interim result; a final result with the exit command and one more result; the
  scripted stream with one captured chunk left in the buffer.
\<close>

definition no_device :: worker_env where
  "no_device = \<lparr>dev_ok = False, responses = scripted, captured = []\<rparr>"

definition failing_service :: worker_env where
  "failing_service = \<lparr>dev_ok = True, responses = [interim_response (str_of ''hel''), StreamFailure], captured = []\<rparr>"

definition exit_session :: worker_env where
  "exit_session =
     \<lparr>dev_ok = True,
      responses = [final_response (str_of ''please exit now''), interim_response (str_of ''more'')],
      captured = []\<rparr>"

definition scripted_session :: worker_env where
  "scripted_session = \<lparr>dev_ok = True, responses = scripted, captured = [[1, 2]]\<rparr>"

section \<open>Properties of the chunk generator\<close>

lemma drain_Some: "drain q acc = Some data \<Longrightarrow> \<exists>ds. q = map Some ds \<and> data = acc @ ds"
proof (induction q acc rule: drain.induct)
  case (1 data)
  then show ?case by simp
next
  case (2 q data)
  then show ?case by simp
next
  case (3 chunk q acc)
  then obtain ds where "q = map Some ds" "data = (acc @ [chunk]) @ ds" by auto
  then have "Some chunk # q = map Some (chunk # ds) \<and> data = acc @ (chunk # ds)" by simp
  then show ?case by (rule exI)
qed

lemma drain_map_Some: "drain (map Some ds) acc = Some (acc @ ds)"
  by (induction ds arbitrary: acc) simp_all

lemma drain_sentinel: "drain (map Some ds @ None # q) acc = None"
  by (induction ds arbitrary: acc) simp_all

lemma split_pushed:
  "map Some ds @ X = map Some cs @ [None] \<Longrightarrow> \<exists>cs'. cs = ds @ cs' \<and> X = map Some cs' @ [None]"
proof (induction ds arbitrary: cs)
  case Nil
  then show ?case by simp
next
  case (Cons d ds)
  then show ?case by (cases cs) auto
qed

lemma generator_returns:
  "None \<in> set (concat bursts) \<Longrightarrow> snd (generator cl k bursts) = Returned"
proof (induction cl k bursts rule: generator.induct)
  case (1 cl k)
  then show ?case by simp
next
  case (2 cl k bursts)
  then show ?case by simp
next
  case (3 cl k q bursts)
  then show ?case by simp
next
  case (4 cl k chunk q bursts)
  show ?case
  proof (cases "cl k")
    case True
    then show ?thesis by simp
  next
    case False
    show ?thesis
    proof (cases "drain q [chunk]")
      case None
      with False show ?thesis by simp
    next
      case (Some data)
      then obtain ds where "q = map Some ds" using drain_Some by blast
      then have "None \<notin> set (Some chunk # q)" by auto
      with "4.prems" have "None \<in> set (concat bursts)" by auto
      from "4.IH" [OF False Some this] False Some show ?thesis
        by (auto split: prod.splits)
    qed
  qed
qed

lemma generator_leading_part:
  "concat bursts = map Some cs @ [None] \<Longrightarrow>
     \<exists>n. concat (fst (generator cl k bursts)) = concat (take n cs)"
proof (induction cl k bursts arbitrary: cs rule: generator.induct)
  case (1 cl k)
  then show ?case by simp
next
  case (2 cl k bursts)
  then show ?case by simp
next
  case (3 cl k q bursts)
  have "concat (fst (generator cl k ((None # q) # bursts))) = concat (take 0 cs)" by simp
  then show ?case by blast
next
  case (4 cl k chunk q bursts)
  show ?case
  proof (cases "cl k")
    case True
    then have "concat (fst (generator cl k ((Some chunk # q) # bursts))) = concat (take 0 cs)"
      by simp
    then show ?thesis by blast
  next
    case False
    show ?thesis
    proof (cases "drain q [chunk]")
      case None
      with False
      have "concat (fst (generator cl k ((Some chunk # q) # bursts))) = concat (take 0 cs)"
        by simp
      then show ?thesis by blast
    next
      case (Some data)
      then obtain ds where q: "q = map Some ds" and data: "data = [chunk] @ ds"
        using drain_Some by blast
      from "4.prems" q have "map Some (chunk # ds) @ concat bursts = map Some cs @ [None]"
        by simp
      then obtain cs' where cs: "cs = (chunk # ds) @ cs'"
        and rest: "concat bursts = map Some cs' @ [None]"
        using split_pushed by blast
      from "4.IH" [OF False Some rest] obtain n
        where n: "concat (fst (generator cl (Suc k) bursts)) = concat (take n cs')" by blast
      have "concat (fst (generator cl k ((Some chunk # q) # bursts)))
              = concat data @ concat (fst (generator cl (Suc k) bursts))"
        using False Some by (simp split: prod.splits)
      also have "\<dots> = concat (take (length (chunk # ds) + n) cs)"
        using n data cs by simp
      finally show ?thesis by blast
    qed
  qed
qed

lemma generator_open_run:
  "generator never_closed k (map (map Some) bs @ (map Some cs' @ None # q) # rest)
     = (map concat (filter (\<lambda>b. b \<noteq> []) bs), Returned)"
proof (induction bs arbitrary: k)
  case Nil
  then show ?case by (cases cs') (simp_all add: never_closed_def drain_sentinel)
next
  case (Cons b bs)
  show ?case
  proof (cases b)
    case Nil
    then show ?thesis using Cons by simp
  next
    case (Cons c ds)
    then show ?thesis using Cons.IH [of "Suc k"]
      by (simp add: never_closed_def drain_map_Some)
  qed
qed

text \<open>
  C1, as the claim states it, fails. Two chunks and then the sentinel are in the
  buffer when the generator starts, and the stream is open: the blocking \<open>get()\<close>
  takes the first chunk, the non-blocking loop takes the second and then the
  sentinel, and returns. The generator yields nothing: the two chunks are lost.
\<close>

theorem C1_generator_loses_batch_counterexample:
  "concat [[Some [1, 2], Some [3], None]] = map Some [[1, 2], [3 :: 8 word]] @ [None] \<and>
   generator never_closed 0 [[Some [1, 2], Some [3], None]] = ([], Returned) \<and>
   concat (fst (generator never_closed 0 [[Some [1, 2], Some [3], None]])) \<noteq> concat [[1, 2], [3]]"
  by (simp add: never_closed_def)

text \<open>
  C1, amended. The chunks \<open>cs\<close> are pushed and then the sentinel, with any timing
  (any bursts whose concatenation is that sequence, any reads of \<open>closed\<close>). Then the
  generator returns: it does not wait for ever. What it yields, joined, is the join
  of a leading part of \<open>cs\<close>, in push order: nothing is yielded out of order or from
  behind the sentinel. When the stream is open for the whole run, it yields one batch
  for each burst drained before the pass that meets the sentinel, and nothing of that
  pass: the chunks \<open>cs'\<close> collected in the pass where the sentinel is met are not
  emitted, and all pushed chunks are emitted exactly when that pass starts with the
  sentinel (\<open>cs' = []\<close>).
\<close>

theorem C1_generator_yields_leading_part:
  "(concat bursts = map Some cs @ [None] \<longrightarrow>
      snd (generator cl k bursts) = Returned \<and>
      (\<exists>n. concat (fst (generator cl k bursts)) = concat (take n cs))) \<and>
   generator never_closed k (map (map Some) bs @ (map Some cs' @ None # q) # rest)
     = (map concat (filter (\<lambda>b. b \<noteq> []) bs), Returned)"
proof (intro conjI impI)
  assume h: "concat bursts = map Some cs @ [None]"
  then have "None \<in> set (concat bursts)" by simp
  then show "snd (generator cl k bursts) = Returned" by (rule generator_returns)
  from h show "\<exists>n. concat (fst (generator cl k bursts)) = concat (take n cs)"
    by (rule generator_leading_part)
next
  show "generator never_closed k (map (map Some) bs @ (map Some cs' @ None # q) # rest)
          = (map concat (filter (\<lambda>b. b \<noteq> []) bs), Returned)"
    by (rule generator_open_run)
qed

theorem C1_generator_yields_leading_part_witness:
  "concat [[Some [1, 2]], [Some [3], Some [4], None]] = map Some [[1, 2], [3], [4 :: 8 word]] @ [None] \<and>
   snd (generator never_closed 0 [[Some [1, 2]], [Some [3], Some [4], None]]) = Returned \<and>
   (\<exists>n. concat (fst (generator never_closed 0 [[Some [1, 2]], [Some [3], Some [4], None]]))
          = concat (take n [[1, 2], [3], [4]])) \<and>
   generator never_closed 0 [[Some [1, 2]], [Some [3], Some [4], None]] = ([[1, 2]], Returned)"
proof -
  have h: "concat [[Some [1, 2]], [Some [3], Some [4], None]]
             = map Some [[1, 2], [3], [4 :: 8 word]] @ [None]" by simp
  have b: "map (map Some) [[[1, 2 :: 8 word]]] @ (map Some [[3], [4]] @ None # []) # []
             = [[Some [1, 2]], [Some [3], Some [4], None]]" by simp
  from C1_generator_yields_leading_part
         [of "[[Some [1, 2]], [Some [3], Some [4], None]]" "[[1, 2], [3], [4]]" never_closed 0
             "[[[1, 2]]]" "[[3], [4]]" "[]" "[]"]
  have "snd (generator never_closed 0 [[Some [1, 2]], [Some [3], Some [4], None]]) = Returned \<and>
        (\<exists>n. concat (fst (generator never_closed 0 [[Some [1, 2]], [Some [3], Some [4], None]]))
               = concat (take n [[1, 2], [3], [4]])) \<and>
        generator never_closed 0 [[Some [1, 2]], [Some [3], Some [4], None]]
          = (map concat (filter (\<lambda>b. b \<noteq> []) [[[1, 2]]]), Returned)"
    unfolding b using h by blast
  then show ?thesis by (simp add: never_closed_def)
qed

section \<open>Properties of the exit command\<close>

lemma literal_at_match: "literal_at (map fold_case w) (w @ r) = Some r"
  by (induction w) simp_all

lemma literal_at_Some:
  "literal_at p s = Some r \<Longrightarrow> \<exists>w. s = w @ r \<and> map fold_case w = p"
proof (induction p s rule: literal_at.induct)
  case (1 s)
  then show ?case by simp
next
  case (2 p ps)
  then show ?case by simp
next
  case (3 p ps c s)
  from "3.prems" have c: "fold_case c = p" and r: "literal_at ps s = Some r"
    by (simp_all split: if_splits)
  from "3.IH" [OF c r] obtain w where "s = w @ r" "map fold_case w = ps" by blast
  with c have "c # s = (c # w) @ r \<and> map fold_case (c # w) = p # ps" by simp
  then show ?case by (rule exI)
qed

lemma literal_at_iff:
  "literal_at p s = Some r \<longleftrightarrow> (\<exists>w. s = w @ r \<and> map fold_case w = p)"
  using literal_at_Some literal_at_match by blast

lemma boundary_after_iff: "boundary_after uw post \<longleftrightarrow> post = [] \<or> \<not> word_char uw (hd post)"
  by (cases post) simp_all

lemma literal_then_boundary:
  "(case literal_at p s of Some r \<Rightarrow> boundary_after uw r | None \<Rightarrow> False) \<longleftrightarrow>
     (\<exists>w post. s = w @ post \<and> map fold_case w = p \<and> (post = [] \<or> \<not> word_char uw (hd post)))"
proof -
  have "(case literal_at p s of Some r \<Rightarrow> boundary_after uw r | None \<Rightarrow> False) \<longleftrightarrow>
        (\<exists>r. literal_at p s = Some r \<and> boundary_after uw r)"
    by (simp split: option.splits)
  also have "\<dots> \<longleftrightarrow> (\<exists>r. (\<exists>w. s = w @ r \<and> map fold_case w = p) \<and> (r = [] \<or> \<not> word_char uw (hd r)))"
    unfolding literal_at_iff boundary_after_iff ..
  also have "\<dots> \<longleftrightarrow> (\<exists>w post. s = w @ post \<and> map fold_case w = p \<and> (post = [] \<or> \<not> word_char uw (hd post)))"
    by blast
  finally show ?thesis .
qed

lemma two_literals:
  "((case literal_at a s of Some r \<Rightarrow> boundary_after uw r | None \<Rightarrow> False) \<or>
    (case literal_at b s of Some r \<Rightarrow> boundary_after uw r | None \<Rightarrow> False)) \<longleftrightarrow>
     (\<exists>w post. s = w @ post \<and> (map fold_case w = a \<or> map fold_case w = b) \<and>
        (post = [] \<or> \<not> word_char uw (hd post)))"
  unfolding literal_then_boundary by blast

lemma command_at_iff:
  "command_at uw s \<longleftrightarrow>
     (\<exists>w post. s = w @ post \<and> (map fold_case w = str_of ''exit'' \<or> map fold_case w = str_of ''quit'') \<and>
        (post = [] \<or> \<not> word_char uw (hd post)))"
  unfolding command_at_def by (rule two_literals)

lemma command_at_Nil [simp]: "\<not> command_at uw []"
  by (simp add: command_at_def str_of_def)

lemma search_iff:
  "search uw b s \<longleftrightarrow>
     (\<exists>pre rest. s = pre @ rest \<and> command_at uw rest \<and>
        (if pre = [] then \<not> b else \<not> word_char uw (last pre)))"
proof (induction s arbitrary: b)
  case Nil
  then show ?case by simp
next
  case (Cons c s)
  show ?case
  proof
    assume "search uw b (c # s)"
    then consider "\<not> b" "command_at uw (c # s)" | "search uw (word_char uw c) s" by auto
    then show "\<exists>pre rest. c # s = pre @ rest \<and> command_at uw rest \<and>
        (if pre = [] then \<not> b else \<not> word_char uw (last pre))"
    proof cases
      case 1
      then have "c # s = [] @ (c # s) \<and> command_at uw (c # s) \<and>
        (if [] = ([]::str) then \<not> b else \<not> word_char uw (last []))" by simp
      then show ?thesis by blast
    next
      case 2
      with Cons obtain pre rest where p: "s = pre @ rest" "command_at uw rest"
        "if pre = [] then \<not> word_char uw c else \<not> word_char uw (last pre)" by blast
      then have "c # s = (c # pre) @ rest \<and> command_at uw rest \<and>
        (if c # pre = [] then \<not> b else \<not> word_char uw (last (c # pre)))" by auto
      then show ?thesis by blast
    qed
  next
    assume "\<exists>pre rest. c # s = pre @ rest \<and> command_at uw rest \<and>
        (if pre = [] then \<not> b else \<not> word_char uw (last pre))"
    then obtain pre rest where p: "c # s = pre @ rest" "command_at uw rest"
        "if pre = [] then \<not> b else \<not> word_char uw (last pre)" by blast
    show "search uw b (c # s)"
    proof (cases pre)
      case Nil
      with p show ?thesis by auto
    next
      case (Cons d pre')
      with p have "s = pre' @ rest" "d = c"
        "if pre' = [] then \<not> word_char uw c else \<not> word_char uw (last pre')" by (auto split: if_splits)
      with p(2) Cons.IH [of "word_char uw c"] have "search uw (word_char uw c) s" by blast
      then show ?thesis by simp
    qed
  qed
qed

lemma regroup:
  "(\<exists>pre rest. s = pre @ rest \<and> (\<exists>w post. rest = w @ post \<and> C w \<and> Q post) \<and> P pre) \<longleftrightarrow>
   (\<exists>pre w post. s = pre @ w @ post \<and> C w \<and> P pre \<and> Q post)"
  by blast

lemma exit_command_whole_word: "exit_command uw s = whole_word_exit uw s"
proof -
  have b: "(if pre = [] then \<not> False else \<not> word_char uw (last pre))
             \<longleftrightarrow> (pre = [] \<or> \<not> word_char uw (last pre))" for pre :: str
    by simp
  show ?thesis
    unfolding exit_command_def search_iff b command_at_iff whole_word_exit_def
    by (rule regroup)
qed

section \<open>Properties of the receive loop\<close>

lemma after_simps [simp]:
  "fst (after acts r) = acts @ fst r" "snd (after acts r) = snd r"
  by (simp_all add: after_def)

lemma puts_append [simp]: "puts (xs @ ys) = puts xs @ puts ys"
  by (induction xs rule: puts.induct) simp_all













section \<open>The worker: forwarding, the exit command, cancellation\<close>

lemmas regex_eval = exit_command_def command_at_def fold_case_def word_char_def str_of_def
  sample_words_def

lemmas scenario_defs = interim_response_def final_response_def scripted_def




text \<open>
  The scan for the exit command does what C3 says of it. The search of the code is
  the whole-word search of the specification, with the case rules of \<open>re.I\<close>: the
  transcript holds \<open>exit\<close> or \<open>quit\<close>, in any mix of cases, with no word character
  right before and right after. A response that passes the test of the stop event and
  has an alternative is put on the result queue first; the loop is then left if and
  only if the result is final and the search succeeds: an interim result is never
  scanned, and the pair of the final result is on the queue when the loop is left.
\<close>

lemma exit_scan_on_final_results:
  "exit_command uw transcript = whole_word_exit uw transcript \<and>
   (\<not> ev (Suc t) \<and> alternatives result = transcript # alts \<longrightarrow>
      receive_loop uw ev t (Response (result # others) # rs) =
        (if is_final result \<and> exit_command uw transcript
         then ([Recv, Check False, Put transcript True], ExitCommand)
         else after [Recv, Check False, Put transcript (is_final result)]
                (receive_loop uw ev (Suc (Suc (Suc t))) rs)))"
proof -
  have "\<not> ev (Suc t) \<and> alternatives result = transcript # alts \<longrightarrow>
      receive_loop uw ev t (Response (result # others) # rs) =
        (if is_final result \<and> exit_command uw transcript
         then ([Recv, Check False, Put transcript True], ExitCommand)
         else after [Recv, Check False, Put transcript (is_final result)]
                (receive_loop uw ev (Suc (Suc (Suc t))) rs))"
    by (simp add: numeral_3_eq_3)
  with exit_command_whole_word [of uw transcript] show ?thesis by blast
qed

text \<open>
  The transcripts of the specification, and four with code points beyond 255: "qu" U+0131 "t" and
  "ex" U+0130 "t" hold the command, since the two code points match \<open>i\<close>; \<open>exit\<close> right
  after a Chinese letter, or right before a Japanese one, is not a whole word.
\<close>

lemma exit_scan_examples:
  "exit_command uw (str_of ''please exit now'') \<and>
   \<not> exit_command uw (str_of ''the exitway is blocked'') \<and>
   exit_command uw (str_of ''Quit, please'') \<and>
   exit_command sample_words [113, 117, 305, 116] \<and>
   exit_command sample_words [101, 120, 304, 116] \<and>
   \<not> exit_command sample_words (35831 # str_of ''exit'') \<and>
   \<not> exit_command sample_words (str_of ''exit'' @ [12375, 12390])"
  by (simp add: regex_eval)

text \<open>
  C3 on the code. A final result "please exit now" comes, followed by one more
  result. The worker puts the pair on the result queue and then leaves the loop: no
  further response is read, \<open>__exit__\<close> closes the stream and the thread ends. The
  session of the controller does not end: nothing makes it leave \<open>Listening\<close>. It
  is still \<open>Listening\<close> after the runs of the page that follow, with no live worker,
  and the start button starts no new worker.
\<close>

theorem C3_exit_command_leaves_listening:
  "exit_command sample_words (str_of ''please exit now'') \<and>
   listen_and_transcribe sample_words never_set exit_session
     = \<lparr>trace = [Recv, Check False, Put (str_of ''please exit now'') True],
        reason = ExitCommand, stream = \<lparr>buff = [None], closed = True\<rparr>\<rparr> \<and>
   ss_result_queue (run sample_words [Script press_start, Worker 0 exit_session] world_init)
     = Some [(str_of ''please exit now'', True)] \<and>
   live (run sample_words [Script press_start, Worker 0 exit_session] world_init) = {} \<and>
   is_listening (run sample_words [Script press_start, Worker 0 exit_session] world_init) \<and>
   is_listening (run sample_words
      [Script press_start, Worker 0 exit_session, Script no_press, Script no_press] world_init) \<and>
   phase_of (main no_press (run sample_words
      [Script press_start, Worker 0 exit_session, Script no_press] world_init)) = Listening \<and>
   started (run sample_words
      [Script press_start, Worker 0 exit_session, Script no_press, Script press_start] world_init)
     = [''en-US'']"
  by (simp add: main_def state_management_def handle_start_def handle_stop_def stop_trace_def
      process_results_def finish_def store_def world_init_def run_def run_worker_def
      listen_and_transcribe_def enter_def exit_stream_def MicrophoneStream_init_def
      is_listening_def phase_of_def press_start_def no_press_def exit_session_def
      scenario_defs never_set_def after_def regex_eval Let_def)



section \<open>Properties of the session controller\<close>

lemmas controller_defs = main_def state_management_def handle_start_def handle_stop_def
  stop_trace_def process_results_def finish_def store_def

lemma take_results_fields [simp]:
  "listening (take_results q s) = listening s"
  "stop_event (take_results q s) = stop_event s"
  "thread (take_results q s) = thread s"
  "threads (take_results q s) = threads s"
  "alive (take_results q s) = alive s"
  "joins (take_results q s) = joins s"
  "rerun (take_results q s) = rerun s"
  "result_queue (take_results q s) = []"
  "taken (take_results q s) = taken s @ q"
  by (induction q s rule: take_results.induct) simp_all

lemma run_worker_fields [simp]:
  "ss_listening (run_worker uw th env w) = ss_listening w"
  "ss_stop_event (run_worker uw th env w) = ss_stop_event w"
  "ss_thread (run_worker uw th env w) = ss_thread w"
  "ss_final_transcript (run_worker uw th env w) = ss_final_transcript w"
  "started (run_worker uw th env w) = started w"
  by (simp_all add: run_worker_def Let_def)

lemma held_start: "held_is_last s \<Longrightarrow> held_is_last (handle_start inp s)"
  by (simp add: held_is_last_def handle_start_def)

lemma held_stop: "held_is_last s \<Longrightarrow> held_is_last (handle_stop inp s)"
  by (simp add: held_is_last_def handle_stop_def stop_trace_def Let_def split: option.splits)

lemma held_process: "held_is_last s \<Longrightarrow> held_is_last (process_results inp s)"
  by (simp add: held_is_last_def process_results_def)

lemma held_finish: "held_is_last s \<Longrightarrow> held_is_last (finish s)"
  by (simp add: held_is_last_def finish_def Let_def split: option.splits)

lemma held_load: "one_worker w \<Longrightarrow> held_is_last (state_management inp w)"
  by (simp add: one_worker_def is_listening_def held_is_last_def state_management_def
      split: option.splits)

lemma held_store: "held_is_last s \<Longrightarrow> one_worker (store w s)"
  by (simp add: one_worker_def is_listening_def held_is_last_def store_def)

lemma one_worker_init: "one_worker world_init"
  by (simp add: one_worker_def is_listening_def world_init_def)

lemma one_worker_run_worker: "one_worker w \<Longrightarrow> one_worker (run_worker uw th env w)"
  by (simp add: one_worker_def is_listening_def)

lemma one_worker_script: "one_worker w \<Longrightarrow> one_worker (store w (main inp w))"
  unfolding main_def
  by (intro held_store held_finish held_process held_stop held_start held_load)

lemma one_worker_step: "one_worker w \<Longrightarrow> one_worker (step uw w e)"
  by (cases e) (simp_all add: one_worker_run_worker one_worker_script)

lemma one_worker_run: "one_worker w \<Longrightarrow> one_worker (run uw es w)"
  unfolding run_def by (induction es arbitrary: w) (simp_all add: one_worker_step)

lemma finish_fields [simp]:
  "listening (finish s) = listening s" "thread (finish s) = thread s"
  "threads (finish s) = threads s" "alive (finish s) = alive s" "joins (finish s) = joins s"
  "stop_event (finish s) = stop_event s" "result_queue (finish s) = result_queue s"
  "taken (finish s) = taken s"
  by (simp_all add: finish_def Let_def split: option.splits)

lemma process_results_fields [simp]:
  "thread (process_results inp s) = thread s"
  "threads (process_results inp s) = threads s" "alive (process_results inp s) = alive s"
  "joins (process_results inp s) = joins s"
  "stop_event (process_results inp s) = stop_event s"
  by (simp_all add: process_results_def)

lemma handle_stop_fields [simp]:
  "threads (handle_stop inp s) = threads s" "alive (handle_stop inp s) = alive s"
  "result_queue (handle_stop inp s) = result_queue s" "taken (handle_stop inp s) = taken s"
  by (simp_all add: handle_stop_def stop_trace_def Let_def split: option.splits)

lemma start_keeps_threads:
  "is_listening w \<Longrightarrow> started (step uw w (Script inp)) = started w"
  by (simp add: is_listening_def main_def store_def handle_start_def state_management_def)

lemmas world_eval = controller_defs world_init_def run_def run_worker_def
  listen_and_transcribe_def enter_def exit_stream_def fill_buffer_def MicrophoneStream_init_def
  is_listening_def phase_of_def press_start_def press_stop_def no_press_def poll_fails_def
  no_device_def failing_service_def scripted_session_def scenario_defs never_set_def after_def
  str_of_def Let_def

lemma idle_not_listening: "phase_of s = Idle \<Longrightarrow> \<not> listening s"
  by (simp add: phase_of_def split: if_splits)

lemma fold_fill_buffer:
  "buff (fold fill_buffer cs s) = buff s @ map Some cs"
  "closed (fold fill_buffer cs s) = closed s"
  by (induction cs arbitrary: s) (simp_all add: fill_buffer_def)

lemma handle_start_queue [simp]: "result_queue (handle_start inp s) = result_queue s"
  by (simp add: handle_start_def)

lemma stop_pressed_not_listening: "stop_button inp \<Longrightarrow> \<not> listening (handle_stop inp s)"
  by (simp add: handle_stop_def stop_trace_def Let_def split: option.splits)

text \<open>
  C4. The start button pressed while the session is \<open>Listening\<close> changes nothing:
  the branch is not taken, so the stop event is not cleared, no thread is started and
  the state stays \<open>Listening\<close>; pressing start twice is pressing it once. In every
  world the runs of the page and of the workers can reach, a \<open>Listening\<close> session
  holds one thread, the last one started, and a run of the page in a \<open>Listening\<close>
  world starts no thread: there is one \<open>Listening\<close> session at most.
\<close>

theorem C4_start_while_listening_is_noop:
  "(listening s \<longrightarrow> handle_start inp s = s) \<and>
   handle_start inp (handle_start inp s) = handle_start inp s \<and>
   one_worker (run uw es world_init) \<and>
   (is_listening w \<longrightarrow> started (step uw w (Script inp)) = started w)"
proof (intro conjI impI)
  show "handle_start inp s = s" if "listening s"
    using that by (simp add: handle_start_def)
  show "handle_start inp (handle_start inp s) = handle_start inp s"
    by (simp add: handle_start_def)
  show "one_worker (run uw es world_init)"
    by (rule one_worker_run [OF one_worker_init])
  show "started (step uw w (Script inp)) = started w" if "is_listening w"
    using that by (rule start_keeps_threads)
qed

theorem C4_start_while_listening_is_noop_witness:
  "listening (handle_start press_start (state_management press_start world_init)) \<and>
   handle_start press_start (handle_start press_start (state_management press_start world_init))
     = handle_start press_start (state_management press_start world_init) \<and>
   threads (handle_start press_start (state_management press_start world_init)) = [''en-US''] \<and>
   is_listening (run sample_words [Script press_start] world_init) \<and>
   one_worker (run sample_words [Script press_start, Script press_start] world_init) \<and>
   started (step sample_words (run sample_words [Script press_start] world_init) (Script press_start)) = [''en-US'']"
proof -
  have l: "listening (handle_start press_start (state_management press_start world_init))"
    by (simp add: world_eval)
  have w: "is_listening (run sample_words [Script press_start] world_init)"
    by (simp add: world_eval)
  have s: "started (run sample_words [Script press_start] world_init) = [''en-US'']"
    by (simp add: world_eval)
  have t: "threads (handle_start press_start (state_management press_start world_init)) = [''en-US'']"
    by (simp add: world_eval)
  from C4_start_while_listening_is_noop
    [of "handle_start press_start (state_management press_start world_init)" press_start
        sample_words "[Script press_start, Script press_start]"
        "run sample_words [Script press_start] world_init"]
    l w s t
  show ?thesis by simp
qed

text \<open>
  C5. The stop button pressed while the session is \<open>Idle\<close> changes nothing: the
  state is the same, the stop event is not set, and \<open>join\<close> is not called. In a world
  that is not \<open>Listening\<close>, a run of the page without the start button calls no
  \<open>join\<close>, leaves the event and the thread as they are and ends not \<open>Listening\<close>.
\<close>

theorem C5_stop_when_idle_is_noop:
  "(phase_of s = Idle \<longrightarrow>
      handle_stop inp s = s \<and> stop_event (handle_stop inp s) = stop_event s \<and>
      joins (handle_stop inp s) = joins s) \<and>
   (\<not> is_listening w \<and> \<not> start_button inp \<longrightarrow>
      joins (main inp w) = [] \<and>
      stop_event (main inp w) = stop_event (state_management inp w) \<and>
      thread (main inp w) = thread (state_management inp w) \<and>
      \<not> listening (main inp w))"
proof (intro conjI impI)
  assume "phase_of s = Idle"
  then have n: "\<not> listening s" by (rule idle_not_listening)
  then show "handle_stop inp s = s" by (simp add: handle_stop_def)
  then show "stop_event (handle_stop inp s) = stop_event s"
    and "joins (handle_stop inp s) = joins s" by simp_all
next
  assume a: "\<not> is_listening w \<and> \<not> start_button inp"
  then have n: "\<not> listening (state_management inp w)"
    by (auto simp: is_listening_def state_management_def split: option.splits)
  have m: "main inp w = finish (state_management inp w)"
    using a n by (simp add: main_def handle_start_def handle_stop_def process_results_def)
  show "joins (main inp w) = []" unfolding m by (simp add: state_management_def)
  show "stop_event (main inp w) = stop_event (state_management inp w)" unfolding m by simp
  show "thread (main inp w) = thread (state_management inp w)" unfolding m by simp
  show "\<not> listening (main inp w)" unfolding m using n by simp
qed

theorem C5_stop_when_idle_is_noop_witness:
  "phase_of (state_management press_stop world_init) = Idle \<and>
   handle_stop press_stop (state_management press_stop world_init)
     = state_management press_stop world_init \<and>
   \<not> is_listening world_init \<and> \<not> start_button press_stop \<and>
   joins (main press_stop world_init) = [] \<and>
   \<not> stop_event (main press_stop world_init) \<and>
   \<not> listening (main press_stop world_init)"
proof -
  have p: "phase_of (state_management press_stop world_init) = Idle"
    by (simp add: world_eval)
  have n: "\<not> is_listening world_init \<and> \<not> start_button press_stop"
    by (simp add: world_eval)
  have e: "\<not> stop_event (state_management press_stop world_init)"
    by (simp add: world_eval)
  from C5_stop_when_idle_is_noop [of "state_management press_stop world_init" press_stop
      world_init] p n e
  show ?thesis by simp
qed

text \<open>
  C6. The stop button pressed while the session is \<open>Listening\<close> and holds the thread
  \<open>th\<close>: the stop event is set; then the flag is cleared with the thread still
  held, which is \<open>Stopping\<close>; then \<open>join\<close> is called on \<open>th\<close> with the timeout of one
  second; then the thread is forgotten, which is \<open>Idle\<close>. Whether the worker is
  still alive plays no part: the set of live threads is neither read nor changed.
\<close>

theorem C6_stop_when_listening:
  "listening s \<and> thread s = Some th \<and> stop_button inp \<Longrightarrow>
     map stop_event (stop_trace s) = [True, True, True, True] \<and>
     map phase_of (stop_trace s) = [Listening, Stopping, Stopping, Idle] \<and>
     map joins (stop_trace s)
       = [joins s, joins s, joins s @ [(th, 1)], joins s @ [(th, 1)]] \<and>
     last (stop_trace s) = handle_stop inp s \<and>
     phase_of (handle_stop inp s) = Idle \<and>
     stop_event (handle_stop inp s) \<and>
     joins (handle_stop inp s) = joins s @ [(th, 1)] \<and>
     handle_stop inp (s\<lparr>alive := A\<rparr>) = (handle_stop inp s)\<lparr>alive := A\<rparr>"
  by (simp add: handle_stop_def stop_trace_def phase_of_def Let_def)

theorem C6_stop_when_listening_witness:
  "listening (main press_start world_init) \<and> thread (main press_start world_init) = Some 0 \<and>
   stop_button press_stop \<and>
   map phase_of (stop_trace (main press_start world_init))
     = [Listening, Stopping, Stopping, Idle] \<and>
   joins (handle_stop press_stop (main press_start world_init)) = [(0, 1)] \<and>
   phase_of (handle_stop press_stop (main press_start world_init)) = Idle \<and>
   stop_event (handle_stop press_stop (main press_start world_init)) \<and>
   alive (handle_stop press_stop (main press_start world_init)) = {0} \<and>
   alive (handle_stop press_stop ((main press_start world_init)\<lparr>alive := {}\<rparr>)) = {}"
proof -
  have h: "listening (main press_start world_init) \<and>
           thread (main press_start world_init) = Some 0 \<and> stop_button press_stop"
    by (simp add: world_eval)
  have j: "joins (main press_start world_init) = []" "alive (main press_start world_init) = {0}"
    by (simp_all add: world_eval)
  from C6_stop_when_listening [OF h, of "{}"] h j
  show ?thesis by simp
qed

text \<open>
  C7, as the claim states it, fails. The start button is pressed and the device
  cannot be opened: the handler does not open the device, it leaves the session
  \<open>Listening\<close>; the failure happens in the worker, and the session is not \<open>Idle\<close>
  afterwards.
\<close>

theorem C7_start_then_device_failure_counterexample:
  "reason (listen_and_transcribe sample_words never_set no_device) = Raised DeviceError \<and>
   phase_of (main press_start world_init) = Listening \<and>
   is_listening (run sample_words [Script press_start, Worker 0 no_device] world_init) \<and>
   phase_of (main no_press (run sample_words [Script press_start, Worker 0 no_device] world_init)) \<noteq> Idle"
  by (simp add: world_eval)

text \<open>
  C7, amended. The start handler does not open the device and cannot fail on it:
  pressed while the session is not \<open>Listening\<close>, it clears the stop event, makes the
  session \<open>Listening\<close> and starts the worker, whatever the device does. The device is
  opened by the worker, in \<open>MicrophoneStream.__enter__\<close>. When that fails the worker
  ends at once with the error of the device and no session with the service exists:
  no response is read, nothing is put on the result queue, the stream is never marked
  open and no sentinel is pushed.
\<close>

theorem C7_device_failure_stays_in_worker:
  "(start_button inp \<and> \<not> listening s \<longrightarrow>
      phase_of (handle_start inp s) = Listening \<and>
      thread (handle_start inp s) = Some (length (threads s)) \<and>
      threads (handle_start inp s) = threads s @ [language_code inp] \<and>
      \<not> stop_event (handle_start inp s)) \<and>
   (\<not> dev_ok env \<longrightarrow>
      listen_and_transcribe uw ev env
        = \<lparr>trace = [], reason = Raised DeviceError, stream = MicrophoneStream_init\<rparr> \<and>
      puts (trace (listen_and_transcribe uw ev env)) = [] \<and>
      closed (stream (listen_and_transcribe uw ev env)) \<and>
      buff (stream (listen_and_transcribe uw ev env)) = [] \<and>
      ss_result_queue (run_worker uw th env w) = ss_result_queue w)"
proof (intro conjI impI)
  assume a: "start_button inp \<and> \<not> listening s"
  then show "phase_of (handle_start inp s) = Listening"
    and "thread (handle_start inp s) = Some (length (threads s))"
    and "threads (handle_start inp s) = threads s @ [language_code inp]"
    and "\<not> stop_event (handle_start inp s)"
    by (simp_all add: handle_start_def phase_of_def)
next
  assume d: "\<not> dev_ok env"
  then show r: "listen_and_transcribe uw ev env
        = \<lparr>trace = [], reason = Raised DeviceError, stream = MicrophoneStream_init\<rparr>" for ev
    by (simp add: listen_and_transcribe_def enter_def)
  show "puts (trace (listen_and_transcribe uw ev env)) = []" unfolding r by simp
  show "closed (stream (listen_and_transcribe uw ev env))"
    unfolding r by (simp add: MicrophoneStream_init_def)
  show "buff (stream (listen_and_transcribe uw ev env)) = []"
    unfolding r by (simp add: MicrophoneStream_init_def)
  show "ss_result_queue (run_worker uw th env w) = ss_result_queue w"
    unfolding run_worker_def r by (simp add: option.map_ident)
qed

theorem C7_device_failure_stays_in_worker_witness:
  "start_button press_start \<and> \<not> listening (state_management press_start world_init) \<and>
   phase_of (handle_start press_start (state_management press_start world_init)) = Listening \<and>
   thread (handle_start press_start (state_management press_start world_init)) = Some 0 \<and>
   \<not> dev_ok no_device \<and>
   reason (listen_and_transcribe sample_words never_set no_device) = Raised DeviceError \<and>
   puts (trace (listen_and_transcribe sample_words never_set no_device)) = [] \<and>
   ss_result_queue (run_worker sample_words 0 no_device
     (run sample_words [Script press_start] world_init)) = Some []"
proof -
  have a: "start_button press_start \<and> \<not> listening (state_management press_start world_init)"
    by (simp add: world_eval)
  have d: "\<not> dev_ok no_device" by (simp add: no_device_def)
  have t: "threads (state_management press_start world_init) = []"
    by (simp add: world_eval)
  have q: "ss_result_queue (run sample_words [Script press_start] world_init) = Some []"
    by (simp add: world_eval)
  from C7_device_failure_stays_in_worker
    [of press_start "state_management press_start world_init" no_device sample_words never_set 0
        "run sample_words [Script press_start] world_init"] a d t q
  show ?thesis by simp
qed

text \<open>
  C9 on the code. The response stream raises in the worker: the worker ends with
  the error of the service and its thread is no longer alive, but nothing makes the
  session leave \<open>Listening\<close>: it is still \<open>Listening\<close> after any number of runs of
  the page in which the stop button is not pressed. An exception raised in the
  polling block of \<open>main\<close> itself does end \<open>Listening\<close>.
\<close>

theorem C9_worker_error_leaves_listening:
  "reason (listen_and_transcribe sample_words never_set failing_service) = Raised ServiceError \<and>
   0 \<notin> live (run sample_words [Script press_start, Worker 0 failing_service] world_init) \<and>
   is_listening (run sample_words [Script press_start, Worker 0 failing_service] world_init) \<and>
   is_listening (run sample_words [Script press_start, Worker 0 failing_service, Script no_press, Script no_press]
                   world_init) \<and>
   phase_of (main no_press (run sample_words [Script press_start, Worker 0 failing_service, Script no_press]
                              world_init)) = Listening \<and>
   phase_of (main poll_fails (run sample_words [Script press_start] world_init)) \<noteq> Listening"
  by (simp add: world_eval)

text \<open>
  C10. The result queue is made when the key \<open>result_queue\<close> is absent from the
  session state and kept as it is when the key is present; every run stores it back.
  A run in which the stop button is pressed takes nothing from the queue: the pairs
  left in it stay. The run that starts the next session takes them: they are delivered
  to the consumer of that session. The buffer of audio chunks belongs to the
  \<open>MicrophoneStream\<close> the worker makes: it holds what was captured for this worker
  and the sentinel, nothing of an earlier session, and the stream of another worker is
  left as it is.
\<close>

theorem C10_result_queue_outlives_sessions:
  "(ss_result_queue w = Some q \<longrightarrow> result_queue (state_management inp w) = q) \<and>
   (ss_result_queue w = None \<longrightarrow> result_queue (state_management inp w) = []) \<and>
   ss_result_queue (store w s) = Some (result_queue s) \<and>
   (ss_result_queue w = Some q \<and> stop_button inp \<longrightarrow>
      ss_result_queue (step uw w (Script inp)) = Some q) \<and>
   (ss_result_queue w = Some q \<and> \<not> is_listening w \<and> start_button inp \<and>
    \<not> stop_button inp \<and> \<not> poll_raises inp \<longrightarrow>
      thread (main inp w) = Some (length (started w)) \<and> taken (main inp w) = q) \<and>
   (dev_ok env \<longrightarrow>
      buff (stream (listen_and_transcribe uw ev env)) = map Some (captured env) @ [None]) \<and>
   (th \<in> live w \<and> th' \<noteq> th \<longrightarrow>
      streams (run_worker uw th env w) th
        = Some (stream (listen_and_transcribe uw (\<lambda>u. ss_stop_event w = Some True) env)) \<and>
      streams (run_worker uw th env w) th' = streams w th')"
proof (intro conjI impI)
  show "result_queue (state_management inp w) = q" if "ss_result_queue w = Some q"
    using that by (simp add: state_management_def)
  show "result_queue (state_management inp w) = []" if "ss_result_queue w = None"
    using that by (simp add: state_management_def)
  show "ss_result_queue (store w s) = Some (result_queue s)"
    by (simp add: store_def)
next
  assume a: "ss_result_queue w = Some q \<and> stop_button inp"
  let ?s = "handle_stop inp (handle_start inp (state_management inp w))"
  from a have "\<not> listening ?s" by (simp add: stop_pressed_not_listening)
  then have "process_results inp ?s = ?s" by (simp add: process_results_def)
  then have "result_queue (main inp w) = q"
    using a by (simp add: main_def state_management_def)
  then show "ss_result_queue (step uw w (Script inp)) = Some q" by (simp add: store_def)
next
  assume a: "ss_result_queue w = Some q \<and> \<not> is_listening w \<and> start_button inp \<and>
    \<not> stop_button inp \<and> \<not> poll_raises inp"
  then have n: "\<not> listening (state_management inp w)"
    by (auto simp: is_listening_def state_management_def split: option.splits)
  let ?s = "handle_start inp (state_management inp w)"
  from a n have l: "listening ?s" and t: "thread ?s = Some (length (started w))"
    and k: "taken ?s = []" and r: "result_queue ?s = q"
    by (simp_all add: handle_start_def state_management_def)
  from a have h: "handle_stop inp ?s = ?s" by (simp add: handle_stop_def)
  from a l have p: "process_results inp ?s = (take_results (result_queue ?s) ?s)\<lparr>rerun := True\<rparr>"
    by (simp add: process_results_def)
  show "thread (main inp w) = Some (length (started w))"
    unfolding main_def h p using t by simp
  show "taken (main inp w) = q"
    unfolding main_def h p using k r by simp
next
  assume "dev_ok env"
  then show "buff (stream (listen_and_transcribe uw ev env)) = map Some (captured env) @ [None]"
    by (simp add: listen_and_transcribe_def enter_def exit_stream_def fold_fill_buffer
        MicrophoneStream_init_def split: prod.splits)
next
  assume a: "th \<in> live w \<and> th' \<noteq> th"
  then show "streams (run_worker uw th env w) th
        = Some (stream (listen_and_transcribe uw (\<lambda>u. ss_stop_event w = Some True) env))"
    and "streams (run_worker uw th env w) th' = streams w th'"
    by (simp_all add: run_worker_def Let_def)
qed

theorem C10_result_queue_outlives_sessions_witness:
  "ss_result_queue (run sample_words [Script press_start, Worker 0 scripted_session, Script press_stop] world_init)
     = Some [(str_of ''hel'', False), (str_of ''hello'', False), (str_of ''hello world'', True)] \<and>
   \<not> is_listening (run sample_words [Script press_start, Worker 0 scripted_session, Script press_stop] world_init) \<and>
   taken (main press_start
            (run sample_words [Script press_start, Worker 0 scripted_session, Script press_stop] world_init))
     = [(str_of ''hel'', False), (str_of ''hello'', False), (str_of ''hello world'', True)] \<and>
   thread (main press_start
            (run sample_words [Script press_start, Worker 0 scripted_session, Script press_stop] world_init))
     = Some 1 \<and>
   buff (stream (listen_and_transcribe sample_words never_set \<lparr>dev_ok = True, responses = [], captured = [[3]]\<rparr>))
     = [Some [3], None] \<and>
   streams (run_worker sample_words 1 \<lparr>dev_ok = True, responses = [], captured = [[3]]\<rparr>
              (run sample_words [Script press_start, Worker 0 scripted_session, Script press_stop,
                    Script press_start] world_init)) 0
     = Some \<lparr>buff = [Some [1, 2], None], closed = True\<rparr>"
proof -
  let ?w = "run sample_words [Script press_start, Worker 0 scripted_session, Script press_stop] world_init"
  let ?w' = "run sample_words [Script press_start, Worker 0 scripted_session, Script press_stop,
                  Script press_start] world_init"
  let ?env = "\<lparr>dev_ok = True, responses = [], captured = [[3 :: 8 word]]\<rparr>"
  have q: "ss_result_queue ?w = Some [(str_of ''hel'', False), (str_of ''hello'', False), (str_of ''hello world'', True)]"
    by (simp add: world_eval regex_eval)
  have n: "\<not> is_listening ?w" by (simp add: world_eval)
  have b: "start_button press_start \<and> \<not> stop_button press_start \<and> \<not> poll_raises press_start"
    by (simp add: press_start_def)
  have s: "started ?w = [''en-US'']" by (simp add: world_eval)
  have l: "1 \<in> live ?w'" by (simp add: world_eval)
  have o: "streams ?w' 0 = Some \<lparr>buff = [Some [1, 2], None], closed = True\<rparr>"
    by (simp add: world_eval)
  have d: "dev_ok ?env" by simp
  from C10_result_queue_outlives_sessions
         [of ?w "[(str_of ''hel'', False), (str_of ''hello'', False), (str_of ''hello world'', True)]" press_start
             _ sample_words ?env never_set 1 0] q n b s d
  have 1: "taken (main press_start ?w) = [(str_of ''hel'', False), (str_of ''hello'', False), (str_of ''hello world'', True)]"
    and 2: "thread (main press_start ?w) = Some 1"
    and 3: "buff (stream (listen_and_transcribe sample_words never_set ?env)) = [Some [3], None]"
    by simp_all
  from C10_result_queue_outlives_sessions [of ?w' _ _ _ sample_words ?env _ 1 0] l o
  have 4: "streams (run_worker sample_words 1 ?env ?w') 0 = Some \<lparr>buff = [Some [1, 2], None], closed = True\<rparr>"
    by simp
  from q n 1 2 3 4 show ?thesis by blast
qed

end
